theory Spec2Isabelle
  imports Main
begin

text \<open>
  A shallow embedding of \<^verbatim>\<open>sms-gammu-gateway/support.py\<close>. \<^verbatim>\<open>retrieveAllSms\<close> and
  \<^verbatim>\<open>deleteSms\<close> are functions of an explicit world that holds the state of the modem
  and the trace of what the module has called and printed; the modem driver
  (\<^verbatim>\<open>gammu\<close>) is a parameter, and what is proved holds for every driver.
  \<^verbatim>\<open>init_state_machine\<close> is embedded as Python's compiler sees it: its text is not
  well formed, so it has no run. \<^verbatim>\<open>encodeSms\<close>, which only passes its argument to the
  driver, and the device diagnostics are not part of the development.
\<close>

section \<open>Exceptions\<close>

text \<open>
  The exceptions that matter in \<^verbatim>\<open>support.py\<close>. Everything the driver, the operating
  system, an index expression or the compiler raises is a subclass of Python's
  \<^verbatim>\<open>Exception\<close> (type \<open>exc\<close>); \<^verbatim>\<open>sys.exit\<close> raises \<^verbatim>\<open>SystemExit\<close>, which is
  a \<^verbatim>\<open>BaseException\<close> only, so an \<^verbatim>\<open>except Exception\<close> clause does not catch it
  (type \<open>raised\<close>: what can leave a function).
\<close>

datatype exc =
    ERR_NOSIM
  | ERR_OTHER string
  | IndexError
  | UnboundLocalError
  | OSError string
  | SyntaxError

datatype raised = Exception exc | SystemExit int

section \<open>Data\<close>

text \<open>
  The dictionaries that the driver hands out have a fixed set of keys; they are records
  with the keys that the module reads. The type \<open>'dt\<close> is the driver's timestamp.
\<close>

record 'dt fragment =
  Location :: int
  DateTime :: 'dt
  Number :: string
  State :: string
  Text :: string

record sms_status =
  SIMUsed :: int
  PhoneUsed :: int
  TemplatesUsed :: int

record entry =
  Buffer :: "string option"

record decoded =
  Entries :: "entry list"

text \<open>The dictionary that \<^verbatim>\<open>retrieveAllSms\<close> builds for one logical message.\<close>

record sms_message =
  Date :: string
  Number :: string
  State :: string
  Locations :: "int list"
  Text :: string

text \<open>
  The two ways \<^verbatim>\<open>GetNextSMS\<close> is called: \<^verbatim>\<open>Start=True\<close> and
  \<^verbatim>\<open>Location=l\<close>.
\<close>

datatype fetch = FetchStart | FetchAfter int

datatype sm_handle = StateMachine

section \<open>The driver and the library\<close>

text \<open>
  The modem driver is external. Every operation of the handle takes the state \<open>'m\<close> of
  the modem and returns its outcome with the new state; the outcome is an exception or a
  value. \<^verbatim>\<open>LinkSMS\<close>, \<^verbatim>\<open>DecodeSMS\<close> and \<^verbatim>\<open>str\<close> do not touch the device.
\<close>

record ('m, 'dt) env =
  GetSMSStatus :: "'m \<Rightarrow> (exc + sms_status) \<times> 'm"
  GetNextSMS :: "fetch \<Rightarrow> int \<Rightarrow> 'm \<Rightarrow> (exc + 'dt fragment list) \<times> 'm"
  DeleteSMS :: "int \<Rightarrow> int \<Rightarrow> 'm \<Rightarrow> (exc + unit) \<times> 'm"
  LinkSMS :: "'dt fragment list list \<Rightarrow> exc + 'dt fragment list list"
  DecodeSMS :: "'dt fragment list \<Rightarrow> exc + decoded option"
  str_datetime :: "'dt \<Rightarrow> string"

section \<open>The world: external state and what has been observed\<close>

text \<open>
  A printed line is a fixed text, or a text followed by an exception (an f-string
  ending in \<^verbatim>\<open>{e}\<close>).
\<close>

datatype line = Line string | LineExc string exc

text \<open>
  Every call that leaves the module is recorded with its arguments and its outcome,
  and every printed line, in the order in which they happen.
\<close>

datatype 'dt event =
    EvGetSMSStatus "exc + sms_status"
  | EvGetNextSMS fetch int "exc + 'dt fragment list"
  | EvDeleteSMS int int "exc + unit"
  | EvLinkSMS "'dt fragment list list" "exc + 'dt fragment list list"
  | EvDecodeSMS "'dt fragment list" "exc + decoded option"
  | Print line

record ('m, 'dt) world =
  dev :: 'm
  trace :: "'dt event list"

definition py_print :: "line \<Rightarrow> ('m, 'dt) world \<Rightarrow> ('m, 'dt) world" where
  "py_print l w = w\<lparr>trace := trace w @ [Print l]\<rparr>"

definition invoke ::
  "('m \<Rightarrow> (exc + 'a) \<times> 'm) \<Rightarrow> (exc + 'a \<Rightarrow> 'dt event) \<Rightarrow> ('m, 'dt) world
    \<Rightarrow> (exc + 'a) \<times> ('m, 'dt) world" where
  "invoke op ev w =
     (case op (dev w) of (r, m') \<Rightarrow> (r, w\<lparr>dev := m', trace := trace w @ [ev r]\<rparr>))"

definition invoke_pure ::
  "(exc + 'a) \<Rightarrow> (exc + 'a \<Rightarrow> 'dt event) \<Rightarrow> ('m, 'dt) world
    \<Rightarrow> (exc + 'a) \<times> ('m, 'dt) world" where
  "invoke_pure r ev w = (r, w\<lparr>trace := trace w @ [ev r]\<rparr>)"

text \<open>The exception with which a recorded call failed, if it failed.\<close>

definition failed :: "exc + 'a \<Rightarrow> exc option" where
  "failed r = (case r of Inl e \<Rightarrow> Some e | Inr _ \<Rightarrow> None)"

fun failure :: "'dt event \<Rightarrow> exc option" where
  "failure (EvGetSMSStatus r) = failed r"
| "failure (EvGetNextSMS q f r) = failed r"
| "failure (EvDeleteSMS f l r) = failed r"
| "failure (EvLinkSMS a r) = failed r"
| "failure (EvDecodeSMS a r) = failed r"
| "failure (Print l) = None"

section \<open>\<^verbatim>\<open>retrieveAllSms\<close>\<close>

text \<open>
  The \<^verbatim>\<open>while\<close> loop. \<open>cur\<close> is \<^verbatim>\<open>currentMultiPartSms\<close>, unbound before the
  first fetch; \<open>cur[0]\<close> raises \<^verbatim>\<open>IndexError\<close> on an empty list.
\<close>

function fetch_loop ::
  "('m, 'dt) env \<Rightarrow> int \<Rightarrow> 'dt fragment list list \<Rightarrow> 'dt fragment list option \<Rightarrow> bool
    \<Rightarrow> ('m, 'dt) world \<Rightarrow> (exc + 'dt fragment list list) \<times> ('m, 'dt) world" where
  "fetch_loop E allMultiPartSmsCount allMultiPartSms cur start w =
     (if int (length allMultiPartSms) < allMultiPartSmsCount then
        (if start then
           (case invoke (GetNextSMS E FetchStart 0) (EvGetNextSMS FetchStart 0) w of
              (Inl e, w') \<Rightarrow> (Inl e, w')
            | (Inr currentMultiPartSms, w') \<Rightarrow>
                fetch_loop E allMultiPartSmsCount (allMultiPartSms @ [currentMultiPartSms])
                  (Some currentMultiPartSms) False w')
         else
           (case cur of
              None \<Rightarrow> (Inl UnboundLocalError, w)
            | Some [] \<Rightarrow> (Inl IndexError, w)
            | Some (p # _) \<Rightarrow>
                (case invoke (GetNextSMS E (FetchAfter (Location p)) 0)
                        (EvGetNextSMS (FetchAfter (Location p)) 0) w of
                   (Inl e, w') \<Rightarrow> (Inl e, w')
                 | (Inr currentMultiPartSms, w') \<Rightarrow>
                     fetch_loop E allMultiPartSmsCount (allMultiPartSms @ [currentMultiPartSms])
                       (Some currentMultiPartSms) False w')))
      else (Inr allMultiPartSms, w))"
  by pat_completeness auto
termination
  by (relation "measure (\<lambda>(E, n, a, c, s, w). nat (n - int (length a)))") auto

declare fetch_loop.simps [simp del]

text \<open>The inner loop over \<^verbatim>\<open>decodedSms['Entries']\<close>.\<close>

fun join_buffers :: "string \<Rightarrow> entry list \<Rightarrow> string" where
  "join_buffers text [] = text"
| "join_buffers text (entry # entries) =
     (case Buffer entry of
        None \<Rightarrow> join_buffers text entries
      | Some b \<Rightarrow> join_buffers (text @ b) entries)"

text \<open>
  The loop over the linked messages. \<open>sms[0]\<close> raises \<^verbatim>\<open>IndexError\<close> on an empty
  group.
\<close>

fun results_loop ::
  "('m, 'dt) env \<Rightarrow> 'dt fragment list list \<Rightarrow> sms_message list \<Rightarrow> ('m, 'dt) world
    \<Rightarrow> (exc + sms_message list) \<times> ('m, 'dt) world" where
  "results_loop E [] results w = (Inr results, w)"
| "results_loop E (sms # rest) results w =
     (case sms of
        [] \<Rightarrow> (Inl IndexError, w)
      | smsPart # _ \<Rightarrow>
          (let result = \<lparr>Date = str_datetime E (DateTime smsPart),
                         Number = fragment.Number smsPart,
                         State = fragment.State smsPart,
                         Locations = map Location sms,
                         Text = []\<rparr>
           in case invoke_pure (DecodeSMS E sms) (EvDecodeSMS sms) w of
                (Inl e, w') \<Rightarrow> (Inl e, w')
              | (Inr None, w') \<Rightarrow>
                  results_loop E rest
                    (results @ [result\<lparr>Text := fragment.Text smsPart\<rparr>]) w'
              | (Inr (Some decodedSms), w') \<Rightarrow>
                  results_loop E rest
                    (results @ [result\<lparr>Text := join_buffers [] (Entries decodedSms)\<rparr>]) w'))"

text \<open>The body of the \<^verbatim>\<open>try\<close> block.\<close>

definition retrieve_body ::
  "('m, 'dt) env \<Rightarrow> ('m, 'dt) world \<Rightarrow> (exc + sms_message list) \<times> ('m, 'dt) world" where
  "retrieve_body E w =
     (case invoke (GetSMSStatus E) EvGetSMSStatus w of
        (Inl e, w1) \<Rightarrow> (Inl e, w1)
      | (Inr status, w1) \<Rightarrow>
          (let allMultiPartSmsCount = SIMUsed status + PhoneUsed status + TemplatesUsed status
           in case fetch_loop E allMultiPartSmsCount [] None True w1 of
                (Inl e, w2) \<Rightarrow> (Inl e, w2)
              | (Inr allMultiPartSms, w2) \<Rightarrow>
                  (case invoke_pure (LinkSMS E allMultiPartSms) (EvLinkSMS allMultiPartSms) w2 of
                     (Inl e, w3) \<Rightarrow> (Inl e, w3)
                   | (Inr allSms, w3) \<Rightarrow> results_loop E allSms [] w3)))"

text \<open>The function: the handler prints and re-raises.\<close>

definition retrieveAllSms ::
  "('m, 'dt) env \<Rightarrow> ('m, 'dt) world \<Rightarrow> (raised + sms_message list) \<times> ('m, 'dt) world" where
  "retrieveAllSms E w =
     (case retrieve_body E w of
        (Inl e, w') \<Rightarrow> (Inl (Exception e), py_print (LineExc ''Error retrieving SMS: '' e) w')
      | (Inr results, w') \<Rightarrow> (Inr results, w'))"

section \<open>\<^verbatim>\<open>deleteSms\<close>\<close>

text \<open>
  \<^verbatim>\<open>list(map(lambda location: machine.DeleteSMS(...), sms["Locations"]))\<close>: the list
  is built from left to right, and the first exception ends it.
\<close>

fun delete_map ::
  "('m, 'dt) env \<Rightarrow> int list \<Rightarrow> ('m, 'dt) world \<Rightarrow> (exc + unit list) \<times> ('m, 'dt) world" where
  "delete_map E [] w = (Inr [], w)"
| "delete_map E (location # locations) w =
     (case invoke (DeleteSMS E 0 location) (EvDeleteSMS 0 location) w of
        (Inl e, w') \<Rightarrow> (Inl e, w')
      | (Inr u, w') \<Rightarrow>
          (case delete_map E locations w' of
             (Inl e, w'') \<Rightarrow> (Inl e, w'')
           | (Inr us, w'') \<Rightarrow> (Inr (u # us), w'')))"

definition deleteSms ::
  "('m, 'dt) env \<Rightarrow> sms_message \<Rightarrow> ('m, 'dt) world \<Rightarrow> (raised + unit) \<times> ('m, 'dt) world" where
  "deleteSms E sms w =
     (case delete_map E (Locations sms) w of
        (Inl e, w') \<Rightarrow> (Inr (), py_print (LineExc ''Error deleting SMS: '' e) w')
      | (Inr _, w') \<Rightarrow> (Inr (), w'))"

section \<open>\<^verbatim>\<open>init_state_machine\<close>\<close>

text \<open>
  Python compiles the text of a function before any of it runs, and its compiler refuses
  a \<^verbatim>\<open>try\<close> statement in which a bare \<^verbatim>\<open>except:\<close> is followed by another handler
  (``default 'except:' must be last''). What matters of the text of the function for
  that check is the list of the handlers of each of its \<^verbatim>\<open>try\<close> statements.
\<close>

datatype except_clause = ExceptAll | ExceptClass string

fun default_except_last :: "except_clause list \<Rightarrow> bool" where
  "default_except_last [] = True"
| "default_except_last [h] = True"
| "default_except_last (ExceptAll # _ # _) = False"
| "default_except_last (ExceptClass _ # hs) = default_except_last hs"

definition compile_function :: "except_clause list list \<Rightarrow> exc option" where
  "compile_function trys = (if list_all default_except_last trys then None else Some SyntaxError)"

text \<open>
  The three \<^verbatim>\<open>try\<close> statements of \<^verbatim>\<open>init_state_machine\<close> with their handlers in the
  order in which they are written: the outer one of line 104 (handlers at lines 124 and
  126), the one around the security status of line 109 (line 121), and the one around
  the listing of \<^verbatim>\<open>/dev/\<close> of line 130 (lines 134 and 136).
\<close>

definition init_state_machine_handlers :: "except_clause list list" where
  "init_state_machine_handlers =
     [[ExceptClass ''gammu.ERR_NOSIM'', ExceptClass ''Exception''],
      [ExceptClass ''Exception''],
      [ExceptAll, ExceptClass ''Exception'']]"

text \<open>
  A use of the function with a pin and a device path. \<open>body\<close> stands for what the
  statements of the function would do if they were compiled; when the compiler refuses
  the text, none of them runs, and the one who uses the function gets the compiler's
  exception.
\<close>

definition init_state_machine ::
  "(string option \<Rightarrow> string \<Rightarrow> ('m, 'dt) world \<Rightarrow> (raised + sm_handle) \<times> ('m, 'dt) world)
    \<Rightarrow> string option \<Rightarrow> string \<Rightarrow> ('m, 'dt) world
    \<Rightarrow> (raised + sm_handle) \<times> ('m, 'dt) world" where
  "init_state_machine body pin device_path w =
     (case compile_function init_state_machine_handlers of
        Some e \<Rightarrow> (Inl (Exception e), w)
      | None \<Rightarrow> body pin device_path w)"

section \<open>Reading the trace\<close>

text \<open>Functions on event lists in which the properties below are stated.\<close>

fun is_fetch :: "'dt event \<Rightarrow> bool" where
  "is_fetch (EvGetNextSMS q f r) = True"
| "is_fetch _ = False"

text \<open>The successful answers of the \<^verbatim>\<open>GetNextSMS\<close> calls, in order.\<close>

fun responses :: "'dt event list \<Rightarrow> 'dt fragment list list" where
  "responses [] = []"
| "responses (EvGetNextSMS q f (Inr c) # evs) = c # responses evs"
| "responses (_ # evs) = responses evs"

text \<open>
  The request that continues after an answer: the location of its first fragment. An
  empty answer has none.
\<close>

fun next_fetch :: "'dt fragment list \<Rightarrow> fetch option" where
  "next_fetch [] = None"
| "next_fetch (p # _) = Some (FetchAfter (Location p))"

text \<open>
  \<open>chained q evs\<close>: the first \<^verbatim>\<open>GetNextSMS\<close> call in \<open>evs\<close>, if there is one,
  is the request \<open>q\<close>, every later one continues after the answer of the one before it,
  all in folder 0, and no call follows a failed or an empty answer.
\<close>

fun chained :: "fetch option \<Rightarrow> 'dt event list \<Rightarrow> bool" where
  "chained q [] = True"
| "chained q (EvGetNextSMS q' f r # evs) =
     (q = Some q' \<and> f = 0 \<and> chained (case r of Inl _ \<Rightarrow> None | Inr c \<Rightarrow> next_fetch c) evs)"
| "chained q (_ # evs) = chained q evs"

text \<open>The request that the loop issues next, from its variables.\<close>

definition pending :: "'dt fragment list option \<Rightarrow> bool \<Rightarrow> fetch option" where
  "pending cur start =
     (if start then Some FetchStart else case cur of None \<Rightarrow> None | Some c \<Rightarrow> next_fetch c)"

text \<open>The folder and location of every \<^verbatim>\<open>DeleteSMS\<close> call, in order.\<close>

fun deletions :: "'dt event list \<Rightarrow> (int \<times> int) list" where
  "deletions [] = []"
| "deletions (EvDeleteSMS f l r # evs) = (f, l) # deletions evs"
| "deletions (_ # evs) = deletions evs"

text \<open>The text that the entries of a decoded message carry: the buffers that are not null.\<close>

definition buffers_text :: "entry list \<Rightarrow> string" where
  "buffers_text entries = concat (List.map_filter Buffer entries)"

text \<open>
  \<open>built E sms r\<close>: the dictionary \<open>r\<close> is what the loop over the linked messages
  builds from the group \<open>sms\<close>.
\<close>

definition built :: "('m, 'dt) env \<Rightarrow> 'dt fragment list \<Rightarrow> sms_message \<Rightarrow> bool" where
  "built E sms r \<longleftrightarrow>
     sms \<noteq> [] \<and>
     Date r = str_datetime E (DateTime (hd sms)) \<and>
     sms_message.Number r = fragment.Number (hd sms) \<and>
     sms_message.State r = fragment.State (hd sms) \<and>
     Locations r = map Location sms \<and>
     (case DecodeSMS E sms of
        Inl _ \<Rightarrow> False
      | Inr None \<Rightarrow> sms_message.Text r = fragment.Text (hd sms)
      | Inr (Some decodedSms) \<Rightarrow> sms_message.Text r = buffers_text (Entries decodedSms))"

section \<open>An example modem\<close>

text \<open>
  Three stored fragments at locations 1, 2 and 3; the first two are the parts of one
  concatenated message, the third stands alone. The linker joins the first two fragments
  it is given and leaves the others alone; nothing is decodable.
\<close>

definition example_fragment :: "int \<Rightarrow> string fragment" where
  "example_fragment l =
     \<lparr>Location = l,
      DateTime = (if l = 1 then ''2024-05-01 10:00:00'' else ''2024-05-01 10:00:07''),
      Number = (if l = 3 then ''+421900000002'' else ''+421900000001''),
      State = (if l = 1 then ''Read'' else ''UnRead''),
      Text = (if l = 1 then ''Hello '' else if l = 2 then ''world'' else ''Bye'')\<rparr>"

definition example_env :: "(unit, string) env" where
  "example_env =
     \<lparr>GetSMSStatus = (\<lambda>m. (Inr \<lparr>SIMUsed = 2, PhoneUsed = 1, TemplatesUsed = 0\<rparr>, m)),
      GetNextSMS = (\<lambda>q f m.
         (case q of
            FetchStart \<Rightarrow> Inr [example_fragment 1]
          | FetchAfter l \<Rightarrow>
              if l < 3 then Inr [example_fragment (l + 1)] else Inl (ERR_OTHER ''ERR_EMPTY''), m)),
      DeleteSMS = (\<lambda>f l m. (Inr (), m)),
      LinkSMS = (\<lambda>a.
         Inr (case concat a of
                p # q # rest \<Rightarrow> [p, q] # map (\<lambda>x. [x]) rest
              | ps \<Rightarrow> map (\<lambda>x. [x]) ps)),
      DecodeSMS = (\<lambda>g. Inr None),
      str_datetime = (\<lambda>d. d)\<rparr>"

definition world0 :: "(unit, string) world" where
  "world0 = \<lparr>dev = (), trace = []\<rparr>"

text \<open>
  The same modem whose status counts one message more than it stores: the fourth fetch
  fails.
\<close>

definition example_env_short :: "(unit, string) env" where
  "example_env_short =
     example_env\<lparr>GetSMSStatus :=
       (\<lambda>m. (Inr \<lparr>SIMUsed = 2, PhoneUsed = 1, TemplatesUsed = 1\<rparr>, m))\<rparr>"

text \<open>The same modem where the concatenated message decodes to three entries.\<close>

definition example_env_decoding :: "(unit, string) env" where
  "example_env_decoding =
     example_env\<lparr>DecodeSMS :=
       (\<lambda>g. Inr (if length g = 2
                  then Some \<lparr>Entries = [\<lparr>Buffer = Some ''Hello ''\<rparr>, \<lparr>Buffer = None\<rparr>,
                                        \<lparr>Buffer = Some ''world''\<rparr>]\<rparr>
                  else None))\<rparr>"

text \<open>The same modem that cannot delete location 1.\<close>

definition example_env_stuck :: "(unit, string) env" where
  "example_env_stuck =
     example_env\<lparr>DeleteSMS :=
       (\<lambda>f l m. (if l = 1 then Inl (ERR_OTHER ''ERR_INVALIDLOCATION'') else Inr (), m))\<rparr>"

section \<open>Retrieval: the loops and their traces\<close>

lemma fetch_loop_trace:
  assumes "fetch_loop E n a cur start w = (res, w')"
  shows "\<exists>evs. trace w' = trace w @ evs
     \<and> (\<forall>ev\<in>set evs. is_fetch ev)
     \<and> chained (pending cur start) evs
     \<and> (\<forall>ev\<in>set evs. \<forall>e. failure ev = Some e \<longrightarrow> res = Inl e)
     \<and> int (length a) + int (length evs) \<le> max (int (length a)) n
     \<and> (\<forall>all. res = Inr all \<longrightarrow> all = a @ responses evs \<and> length (responses evs) = length evs
           \<and> int (length all) = max (int (length a)) n)"
  using assms
proof (induction E n a cur start w arbitrary: res w' rule: fetch_loop.induct)
  case (1 E n a cur start w)
  show ?case
  proof (cases "int (length a) < n")
    case False
    with "1.prems" have "res = Inr a" "w' = w"
      by (simp_all add: fetch_loop.simps)
    with False show ?thesis
      by (auto intro!: exI[of _ "[]"])
  next
    case less: True
    have step: "\<exists>evs. trace w' = trace w @ evs
     \<and> (\<forall>ev\<in>set evs. is_fetch ev)
     \<and> chained (Some q) evs
     \<and> (\<forall>ev\<in>set evs. \<forall>e. failure ev = Some e \<longrightarrow> res = Inl e)
     \<and> int (length a) + int (length evs) \<le> max (int (length a)) n
     \<and> (\<forall>all. res = Inr all \<longrightarrow> all = a @ responses evs \<and> length (responses evs) = length evs
           \<and> int (length all) = max (int (length a)) n)"
      if run: "(case invoke (GetNextSMS E q 0) (EvGetNextSMS q 0) w of
              (Inl e, w1) \<Rightarrow> (Inl e, w1)
            | (Inr c, w1) \<Rightarrow> fetch_loop E n (a @ [c]) (Some c) False w1) = (res, w')"
       and IH: "\<And>c w1 res w'. invoke (GetNextSMS E q 0) (EvGetNextSMS q 0) w = (Inr c, w1) \<Longrightarrow>
            fetch_loop E n (a @ [c]) (Some c) False w1 = (res, w') \<Longrightarrow>
            \<exists>evs. trace w' = trace w1 @ evs
     \<and> (\<forall>ev\<in>set evs. is_fetch ev)
     \<and> chained (pending (Some c) False) evs
     \<and> (\<forall>ev\<in>set evs. \<forall>e. failure ev = Some e \<longrightarrow> res = Inl e)
     \<and> int (length (a @ [c])) + int (length evs) \<le> max (int (length (a @ [c]))) n
     \<and> (\<forall>all. res = Inr all \<longrightarrow> all = (a @ [c]) @ responses evs \<and> length (responses evs) = length evs
           \<and> int (length all) = max (int (length (a @ [c]))) n)"
      for q
    proof (cases "GetNextSMS E q 0 (dev w)")
      case (Pair r m)
      let ?w1 = "w\<lparr>dev := m, trace := trace w @ [EvGetNextSMS q 0 r]\<rparr>"
      have inv: "invoke (GetNextSMS E q 0) (EvGetNextSMS q 0) w = (r, ?w1)"
        using Pair by (simp add: invoke_def)
      show ?thesis
      proof (cases r)
        case (Inl e)
        with inv run have "res = Inl e" "w' = ?w1"
          by simp_all
        with Inl less show ?thesis
          by (auto intro!: exI[of _ "[EvGetNextSMS q 0 (Inl e)]"] simp: failed_def)
      next
        case (Inr c)
        with inv run have "fetch_loop E n (a @ [c]) (Some c) False ?w1 = (res, w')"
          by simp
        from IH[OF inv[unfolded Inr] this[unfolded Inr]] obtain evs where
          evs: "trace w' = trace (w\<lparr>dev := m, trace := trace w @ [EvGetNextSMS q 0 (Inr c)]\<rparr>) @ evs"
            "\<forall>ev\<in>set evs. is_fetch ev"
            "chained (pending (Some c) False) evs"
            "\<forall>ev\<in>set evs. \<forall>e. failure ev = Some e \<longrightarrow> res = Inl e"
            "int (length (a @ [c])) + int (length evs) \<le> max (int (length (a @ [c]))) n"
            "\<forall>all. res = Inr all \<longrightarrow> all = (a @ [c]) @ responses evs \<and> length (responses evs) = length evs
           \<and> int (length all) = max (int (length (a @ [c]))) n"
          by (elim exE conjE) (rule that)
        from evs less show ?thesis
          by (intro exI[of _ "EvGetNextSMS q 0 (Inr c) # evs"])
             (auto simp: pending_def failed_def)
      qed
    qed
    show ?thesis
    proof (cases start)
      case True
      with less "1.prems" have run: "(case invoke (GetNextSMS E FetchStart 0) (EvGetNextSMS FetchStart 0) w of
              (Inl e, w1) \<Rightarrow> (Inl e, w1)
            | (Inr c, w1) \<Rightarrow> fetch_loop E n (a @ [c]) (Some c) False w1) = (res, w')"
        by (simp add: fetch_loop.simps)
      from step[OF run] "1.IH"(1)[OF less True] True show ?thesis
        by (simp add: pending_def)
    next
      case False
      show ?thesis
      proof (cases cur)
        case None
        with less False "1.prems" have "res = Inl UnboundLocalError" "w' = w"
          by (simp_all add: fetch_loop.simps)
        with less show ?thesis
          by (auto intro!: exI[of _ "[]"])
      next
        case (Some c)
        show ?thesis
        proof (cases c)
          case Nil
          with Some less False "1.prems" have "res = Inl IndexError" "w' = w"
            by (simp_all add: fetch_loop.simps)
          with less show ?thesis
            by (auto intro!: exI[of _ "[]"])
        next
          case (Cons p ps)
          with Some less False "1.prems" have run: "(case invoke (GetNextSMS E (FetchAfter (Location p)) 0) (EvGetNextSMS (FetchAfter (Location p)) 0) w of
              (Inl e, w1) \<Rightarrow> (Inl e, w1)
            | (Inr c, w1) \<Rightarrow> fetch_loop E n (a @ [c]) (Some c) False w1) = (res, w')"
            by (simp add: fetch_loop.simps)
          from step[OF run] "1.IH"(2)[OF less False Some Cons] Some Cons False show ?thesis
            by (simp add: pending_def)
        qed
      qed
    qed
  qed
qed


lemma join_buffers_eq: "join_buffers acc entries = acc @ buffers_text entries"
  by (induction entries arbitrary: acc)
     (simp_all add: buffers_text_def List.map_filter_simps split: option.splits)

lemma results_loop_trace:
  assumes "results_loop E allSms results w = (res, w')"
  shows "\<exists>evs. trace w' = trace w @ evs
     \<and> (\<forall>ev\<in>set evs. \<not> is_fetch ev)
     \<and> (\<forall>ev\<in>set evs. \<forall>e. failure ev = Some e \<longrightarrow> res = Inl e)
     \<and> (\<forall>rs. res = Inr rs \<longrightarrow> (\<exists>new. rs = results @ new \<and> list_all2 (built E) allSms new))"
  using assms
proof (induction allSms arbitrary: results w)
  case Nil
  then show ?case
    by (auto intro!: exI[of _ "[]"])
next
  case (Cons sms rest)
  show ?case
  proof (cases sms)
    case Nil
    with Cons.prems have "res = Inl IndexError" "w' = w"
      by simp_all
    then show ?thesis
      by (auto intro!: exI[of _ "[]"])
  next
    case (Cons smsPart tl)
    let ?w1 = "w\<lparr>trace := trace w @ [EvDecodeSMS sms (DecodeSMS E sms)]\<rparr>"
    let ?result = "\<lparr>Date = str_datetime E (DateTime smsPart),
                         Number = fragment.Number smsPart,
                         State = fragment.State smsPart,
                         Locations = map Location sms,
                         Text = []\<rparr>"
    show ?thesis
    proof (cases "DecodeSMS E sms")
      case (Inl e)
      with Cons Cons.prems have "res = Inl e" "w' = ?w1"
        by (simp_all add: invoke_pure_def)
      with Inl show ?thesis
        by (auto intro!: exI[of _ "[EvDecodeSMS sms (Inl e)]"] simp: failed_def)
    next
      case (Inr d)
      define r where "r = (case d of None \<Rightarrow> ?result\<lparr>Text := fragment.Text smsPart\<rparr>
                            | Some decodedSms \<Rightarrow> ?result\<lparr>Text := join_buffers [] (Entries decodedSms)\<rparr>)"
      from Inr Cons Cons.prems have run: "results_loop E rest (results @ [r]) ?w1 = (res, w')"
        by (cases d) (simp_all add: invoke_pure_def r_def)
      have b: "built E sms r"
        using Inr Cons by (cases d) (simp_all add: built_def r_def join_buffers_eq)
      from Cons.IH[OF run] obtain evs where
        evs: "trace w' = trace ?w1 @ evs"
          "\<forall>ev\<in>set evs. \<not> is_fetch ev"
          "\<forall>ev\<in>set evs. \<forall>e. failure ev = Some e \<longrightarrow> res = Inl e"
          "\<forall>rs. res = Inr rs \<longrightarrow> (\<exists>new. rs = (results @ [r]) @ new \<and> list_all2 (built E) rest new)"
        by (elim exE conjE) (rule that)
      have "\<forall>rs. res = Inr rs \<longrightarrow> (\<exists>new. rs = results @ new \<and> list_all2 (built E) (sms # rest) new)"
      proof (intro allI impI)
        fix rs assume "res = Inr rs"
        with evs(4) obtain new where "rs = (results @ [r]) @ new" "list_all2 (built E) rest new"
          by blast
        with b show "\<exists>new. rs = results @ new \<and> list_all2 (built E) (sms # rest) new"
          by (intro exI[of _ "r # new"]) simp
      qed
      with evs(1-3) Inr show ?thesis
        by (intro exI[of _ "EvDecodeSMS sms (Inr d) # evs"]) (auto simp: failed_def)
    qed
  qed
qed


lemma fetch_loop_start:
  assumes "fetch_loop E n [] None True w = (res, w')"
  shows "\<exists>evs. trace w' = trace w @ evs
     \<and> (\<forall>ev\<in>set evs. is_fetch ev)
     \<and> chained (Some FetchStart) evs
     \<and> (\<forall>ev\<in>set evs. \<forall>e. failure ev = Some e \<longrightarrow> res = Inl e)
     \<and> int (length evs) \<le> max 0 n
     \<and> (\<forall>all. res = Inr all \<longrightarrow> all = responses evs \<and> length (responses evs) = length evs
           \<and> int (length evs) = max 0 n)"
  using fetch_loop_trace[OF assms] by (auto simp: pending_def)

lemma results_loop_Inr:
  assumes "results_loop E allSms [] w = (Inr rs, w')"
  shows "\<exists>evs. trace w' = trace w @ evs
     \<and> (\<forall>ev\<in>set evs. \<not> is_fetch ev)
     \<and> list_all2 (built E) allSms rs"
  using results_loop_trace[OF assms] by auto

lemma chained_no_fetch: "\<forall>ev\<in>set evs. \<not> is_fetch ev \<Longrightarrow> chained q evs"
  by (induction q evs rule: chained.induct) simp_all

lemma chained_append:
  "chained q xs \<Longrightarrow> \<forall>ev\<in>set ys. \<not> is_fetch ev \<Longrightarrow> chained q (xs @ ys)"
  by (induction q xs rule: chained.induct) (simp_all add: chained_no_fetch)

lemma filter_fetch_all: "\<forall>ev\<in>set evs. is_fetch ev \<Longrightarrow> filter is_fetch evs = evs"
  by (induction evs) simp_all

lemma filter_fetch_none: "\<forall>ev\<in>set evs. \<not> is_fetch ev \<Longrightarrow> filter is_fetch evs = []"
  by (induction evs) simp_all

lemma retrieve_body_trace:
  assumes "retrieve_body E w = (res, w')"
  shows "\<exists>s evs. trace w' = trace w @ EvGetSMSStatus s # evs
     \<and> chained (Some FetchStart) evs
     \<and> (\<forall>ev\<in>set (EvGetSMSStatus s # evs). \<forall>e. failure ev = Some e \<longrightarrow> res = Inl e)
     \<and> (\<forall>status. s = Inr status \<longrightarrow>
           int (length (filter is_fetch evs))
             \<le> max 0 (SIMUsed status + PhoneUsed status + TemplatesUsed status))"
proof (cases "GetSMSStatus E (dev w)")
  case (Pair s m)
  let ?w1 = "w\<lparr>dev := m, trace := trace w @ [EvGetSMSStatus s]\<rparr>"
  have inv: "invoke (GetSMSStatus E) EvGetSMSStatus w = (s, ?w1)"
    using Pair by (simp add: invoke_def)
  show ?thesis
  proof (cases s)
    case (Inl e)
    with inv assms have "res = Inl e" "w' = ?w1"
      by (simp_all add: retrieve_body_def)
    with Inl show ?thesis
      by (auto intro!: exI[of _ "Inl e"] exI[of _ "[]"] simp: failed_def)
  next
    case (Inr status)
    let ?n = "SIMUsed status + PhoneUsed status + TemplatesUsed status"
    obtain r w2 where fl: "fetch_loop E ?n [] None True ?w1 = (r, w2)"
      by (cases "fetch_loop E ?n [] None True ?w1")
    from fetch_loop_start[OF fl] obtain fevs where
      fevs: "trace w2 = trace ?w1 @ fevs"
        "\<forall>ev\<in>set fevs. is_fetch ev"
        "chained (Some FetchStart) fevs"
        "\<forall>ev\<in>set fevs. \<forall>e. failure ev = Some e \<longrightarrow> r = Inl e"
        "int (length fevs) \<le> max 0 ?n"
      by (elim exE conjE) (rule that)
    note ch = fevs(3) and bound = fevs(5)
    show ?thesis
    proof (cases r)
      case (Inl e)
      with Inr inv fl assms have "res = Inl e" "w' = w2"
        by (simp_all add: retrieve_body_def Let_def)
      with Inl Inr fevs(1,2,4) ch bound show ?thesis
        by (intro exI[of _ "Inr status"] exI[of _ fevs])
           (auto simp: failed_def filter_fetch_all)
    next
      case fetched: (Inr allMultiPartSms)
      let ?l = "LinkSMS E allMultiPartSms"
      let ?w3 = "w2\<lparr>trace := trace w2 @ [EvLinkSMS allMultiPartSms ?l]\<rparr>"
      show ?thesis
      proof (cases ?l)
        case (Inl e)
        with fetched Inr inv fl assms have "res = Inl e" "w' = ?w3"
          by (simp_all add: retrieve_body_def Let_def invoke_pure_def)
        with Inl Inr fetched fevs(1,2,4) bound chained_append[OF ch, of "[EvLinkSMS allMultiPartSms (Inl e)]"]
        show ?thesis
          by (intro exI[of _ "Inr status"] exI[of _ "fevs @ [EvLinkSMS allMultiPartSms (Inl e)]"])
             (auto simp: failed_def filter_fetch_all)
      next
        case linked: (Inr allSms)
        with fetched Inr inv fl assms have rl: "results_loop E allSms [] ?w3 = (res, w')"
          by (simp add: retrieve_body_def Let_def invoke_pure_def)
        from results_loop_trace[OF rl] obtain devs where
          devs: "trace w' = trace ?w3 @ devs"
            "\<forall>ev\<in>set devs. \<not> is_fetch ev"
            "\<forall>ev\<in>set devs. \<forall>e. failure ev = Some e \<longrightarrow> res = Inl e"
          by (elim exE conjE) (rule that)
        let ?tail = "EvLinkSMS allMultiPartSms (Inr allSms) # devs"
        have nf: "\<forall>ev\<in>set ?tail. \<not> is_fetch ev"
          using devs(2) by simp
        have t: "trace w' = trace w @ EvGetSMSStatus s # fevs @ ?tail"
          using devs(1) fevs(1) linked by simp
        have f: "\<forall>ev\<in>set (EvGetSMSStatus s # fevs @ ?tail). \<forall>e. failure ev = Some e \<longrightarrow> res = Inl e"
          using devs(3) fevs(4) fetched Inr by (auto simp: failed_def)
        have c: "int (length (filter is_fetch (fevs @ ?tail))) \<le> max 0 ?n"
          using bound fevs(2) devs(2) by (simp add: filter_fetch_all filter_fetch_none)
        from t f c chained_append[OF ch nf] Inr show ?thesis
          by (intro exI[of _ "Inr status"] exI[of _ "fevs @ ?tail"]) simp
      qed
    qed
  qed
qed

lemma retrieve_body_Inr:
  assumes "retrieve_body E w = (Inr results, w')"
  shows "\<exists>status fevs allSms devs.
     trace w' = trace w @ EvGetSMSStatus (Inr status) # fevs @
       EvLinkSMS (responses fevs) (Inr allSms) # devs
     \<and> (\<forall>ev\<in>set fevs. is_fetch ev)
     \<and> length (responses fevs) = length fevs
     \<and> int (length fevs) = max 0 (SIMUsed status + PhoneUsed status + TemplatesUsed status)
     \<and> (\<forall>ev\<in>set devs. \<not> is_fetch ev)
     \<and> list_all2 (built E) allSms results"
proof (cases "GetSMSStatus E (dev w)")
  case (Pair s m)
  let ?w1 = "w\<lparr>dev := m, trace := trace w @ [EvGetSMSStatus s]\<rparr>"
  have inv: "invoke (GetSMSStatus E) EvGetSMSStatus w = (s, ?w1)"
    using Pair by (simp add: invoke_def)
  show ?thesis
  proof (cases s)
    case (Inl e)
    with inv assms show ?thesis
      by (simp add: retrieve_body_def)
  next
    case (Inr status)
    let ?n = "SIMUsed status + PhoneUsed status + TemplatesUsed status"
    obtain r w2 where fl: "fetch_loop E ?n [] None True ?w1 = (r, w2)"
      by (cases "fetch_loop E ?n [] None True ?w1")
    from Inr inv fl assms obtain allMultiPartSms where fetched: "r = Inr allMultiPartSms"
      by (cases r) (simp_all add: retrieve_body_def Let_def)
    from fetch_loop_start[OF fl] obtain fevs where
      fevs: "trace w2 = trace ?w1 @ fevs"
        "\<forall>ev\<in>set fevs. is_fetch ev"
        "\<forall>all. r = Inr all \<longrightarrow> all = responses fevs \<and> length (responses fevs) = length fevs
           \<and> int (length fevs) = max 0 ?n"
      by (elim exE conjE) (rule that)
    from fevs(3) fetched have all: "allMultiPartSms = responses fevs"
      and len: "length (responses fevs) = length fevs"
      and cnt: "int (length fevs) = max 0 ?n"
      by auto
    let ?l = "LinkSMS E allMultiPartSms"
    let ?w3 = "w2\<lparr>trace := trace w2 @ [EvLinkSMS allMultiPartSms ?l]\<rparr>"
    from fetched Inr inv fl assms obtain allSms where linked: "?l = Inr allSms"
      by (cases ?l) (simp_all add: retrieve_body_def Let_def invoke_pure_def)
    with fetched Inr inv fl assms have rl: "results_loop E allSms [] ?w3 = (Inr results, w')"
      by (simp add: retrieve_body_def Let_def invoke_pure_def)
    from results_loop_Inr[OF rl] obtain devs where
      devs: "trace w' = trace ?w3 @ devs"
        "\<forall>ev\<in>set devs. \<not> is_fetch ev"
      and b: "list_all2 (built E) allSms results"
      by (elim exE conjE) (rule that)
    have t: "trace w' = trace w @ EvGetSMSStatus (Inr status) # fevs @
       EvLinkSMS (responses fevs) (Inr allSms) # devs"
      using devs(1) fevs(1) linked Inr all by simp
    from t fevs(2) len cnt devs(2) b show ?thesis
      by blast
  qed
qed

section \<open>Retrieval and deletion: the claims\<close>

lemma retrieveAllSms_Inr:
  "retrieveAllSms E w = (Inr results, w') \<Longrightarrow> retrieve_body E w = (Inr results, w')"
  by (auto simp: retrieveAllSms_def split: prod.splits sum.splits)

lemma retrieveAllSms_Inr_trace:
  assumes "retrieveAllSms E w = (Inr results, w')" and "trace w' = trace w @ evs"
  shows "\<exists>status fevs allSms devs.
     evs = EvGetSMSStatus (Inr status) # fevs @ EvLinkSMS (responses fevs) (Inr allSms) # devs
     \<and> (\<forall>ev\<in>set fevs. is_fetch ev)
     \<and> length (responses fevs) = length fevs
     \<and> int (length fevs) = max 0 (SIMUsed status + PhoneUsed status + TemplatesUsed status)
     \<and> (\<forall>ev\<in>set devs. \<not> is_fetch ev)
     \<and> list_all2 (built E) allSms results"
  using retrieve_body_Inr[OF retrieveAllSms_Inr[OF assms(1)]] assms(2) by auto

lemma retrieveAllSms_linked:
  assumes "retrieveAllSms E w = (Inr results, w')" and "trace w' = trace w @ evs"
  shows "\<exists>fetched allSms. EvLinkSMS fetched (Inr allSms) \<in> set evs \<and>
           list_all2 (built E) allSms results"
proof -
  from retrieveAllSms_Inr_trace[OF assms] obtain status fevs allSms devs where
    "evs = EvGetSMSStatus (Inr status) # fevs @ EvLinkSMS (responses fevs) (Inr allSms) # devs"
    and "list_all2 (built E) allSms results"
    by blast
  then show ?thesis
    by (intro exI[of _ "responses fevs"] exI[of _ allSms]) simp
qed

lemma retrieveAllSms_trace:
  assumes "retrieveAllSms E w = (res, w')" and "trace w' = trace w @ evs"
  shows "\<exists>s rest tail. evs = EvGetSMSStatus s # rest @ tail
     \<and> chained (Some FetchStart) rest
     \<and> (\<forall>ev\<in>set (EvGetSMSStatus s # rest). \<forall>e. failure ev = Some e \<longrightarrow> res = Inl (Exception e))
     \<and> (\<forall>status. s = Inr status \<longrightarrow>
           int (length (filter is_fetch rest))
             \<le> max 0 (SIMUsed status + PhoneUsed status + TemplatesUsed status))
     \<and> (case res of
          Inl x \<Rightarrow> (\<exists>e. x = Exception e \<and> tail = [Print (LineExc ''Error retrieving SMS: '' e)])
        | Inr _ \<Rightarrow> tail = [])"
proof (cases "retrieve_body E w")
  case (Pair r w1)
  from retrieve_body_trace[OF Pair] obtain s rest where
    rest: "trace w1 = trace w @ EvGetSMSStatus s # rest"
      "chained (Some FetchStart) rest"
      "\<forall>ev\<in>set (EvGetSMSStatus s # rest). \<forall>e. failure ev = Some e \<longrightarrow> r = Inl e"
      "\<forall>status. s = Inr status \<longrightarrow>
           int (length (filter is_fetch rest))
             \<le> max 0 (SIMUsed status + PhoneUsed status + TemplatesUsed status)"
    by (elim exE conjE) (rule that)
  show ?thesis
  proof (cases r)
    case (Inl e)
    with Pair assms(1) have "res = Inl (Exception e)"
      and "w' = py_print (LineExc ''Error retrieving SMS: '' e) w1"
      by (simp_all add: retrieveAllSms_def)
    with rest assms(2) Inl show ?thesis
      by (intro exI[of _ s] exI[of _ rest] exI[of _ "[Print (LineExc ''Error retrieving SMS: '' e)]"])
         (auto simp: py_print_def)
  next
    case (Inr results)
    with Pair assms(1) have "res = Inr results" and "w' = w1"
      by (simp_all add: retrieveAllSms_def)
    with rest assms(2) Inr show ?thesis
      by (intro exI[of _ s] exI[of _ rest] exI[of _ "[]"]) auto
  qed
qed

lemma responses_no_fetch: "\<forall>ev\<in>set evs. \<not> is_fetch ev \<Longrightarrow> responses evs = []"
  by (induction evs rule: responses.induct) simp_all

lemma responses_append: "responses (xs @ ys) = responses xs @ responses ys"
  by (induction xs rule: responses.induct) simp_all

lemma built_Locations:
  "list_all2 (built E) allSms results \<Longrightarrow> map Locations results = map (map Location) allSms"
  by (induction allSms results rule: list_all2_induct) (simp_all add: built_def)

lemma length_concat_singletons: "\<forall>c\<in>set xs. length c = 1 \<Longrightarrow> length (concat xs) = length xs"
  by (induction xs) simp_all

lemma length_concat_map_map: "length (concat (map (map f) xs)) = length (concat xs)"
  by (induction xs) simp_all

lemma delete_map_trace:
  assumes "delete_map E ls w = (res, w')"
  shows "\<exists>evs. trace w' = trace w @ evs \<and>
     (case res of
        Inr us \<Rightarrow> evs = map (\<lambda>l. EvDeleteSMS 0 l (Inr ())) ls
      | Inl e \<Rightarrow> (\<exists>pre l post. ls = pre @ l # post \<and>
          evs = map (\<lambda>l. EvDeleteSMS 0 l (Inr ())) pre @ [EvDeleteSMS 0 l (Inl e)]))"
  using assms
proof (induction ls arbitrary: w res w')
  case Nil
  then show ?case
    by auto
next
  case (Cons location locations)
  obtain r m where d: "DeleteSMS E 0 location (dev w) = (r, m)"
    by (cases "DeleteSMS E 0 location (dev w)")
  let ?w1 = "w\<lparr>dev := m, trace := trace w @ [EvDeleteSMS 0 location r]\<rparr>"
  have inv: "invoke (DeleteSMS E 0 location) (EvDeleteSMS 0 location) w = (r, ?w1)"
    using d by (simp add: invoke_def)
  show ?case
  proof (cases r)
    case (Inl e)
    with inv Cons.prems have "res = Inl e" "w' = ?w1"
      by simp_all
    with Inl show ?thesis
      by (auto intro!: exI[of _ "[]"])
  next
    case (Inr u)
    obtain r2 w2 where dm: "delete_map E locations ?w1 = (r2, w2)"
      by (cases "delete_map E locations ?w1")
    from Cons.IH[OF dm] obtain evs where
      t: "trace w2 = trace ?w1 @ evs"
      and c: "case r2 of
        Inr us \<Rightarrow> evs = map (\<lambda>l. EvDeleteSMS 0 l (Inr ())) locations
      | Inl e \<Rightarrow> (\<exists>pre l post. locations = pre @ l # post \<and>
          evs = map (\<lambda>l. EvDeleteSMS 0 l (Inr ())) pre @ [EvDeleteSMS 0 l (Inl e)])"
      by (elim exE conjE) (rule that)
    show ?thesis
    proof (cases r2)
      case (Inl e)
      with Inr inv dm Cons.prems have res: "res = Inl e" and w': "w' = w2"
        by simp_all
      from c Inl obtain pre l post where
        ls: "locations = pre @ l # post"
        and evs: "evs = map (\<lambda>l. EvDeleteSMS 0 l (Inr ())) pre @ [EvDeleteSMS 0 l (Inl e)]"
        by auto
      have t': "trace w' = trace w @ EvDeleteSMS 0 location (Inr ()) # evs"
        using t w' Inr by simp
      have "\<exists>pre' l' post'. location # locations = pre' @ l' # post' \<and>
          EvDeleteSMS 0 location (Inr ()) # evs =
            map (\<lambda>l. EvDeleteSMS 0 l (Inr ())) pre' @ [EvDeleteSMS 0 l' (Inl e)]"
        using ls evs by (intro exI[of _ "location # pre"] exI[of _ l] exI[of _ post]) simp
      with t' res show ?thesis
        by (intro exI[of _ "EvDeleteSMS 0 location (Inr ()) # evs"]) simp
    next
      case r2: (Inr us)
      with Inr inv dm Cons.prems have "res = Inr (u # us)" "w' = w2"
        by simp_all
      with c r2 t Inr show ?thesis
        by auto
    qed
  qed
qed

lemma deleteSms_events:
  assumes "deleteSms E sms w = (res, w')" and "trace w' = trace w @ evs"
  shows "res = Inr () \<and>
    (evs = map (\<lambda>l. EvDeleteSMS 0 l (Inr ())) (Locations sms) \<or>
     (\<exists>pre l post e. Locations sms = pre @ l # post \<and>
        evs = map (\<lambda>l. EvDeleteSMS 0 l (Inr ())) pre @
          [EvDeleteSMS 0 l (Inl e), Print (LineExc ''Error deleting SMS: '' e)]))"
proof (cases "delete_map E (Locations sms) w")
  case (Pair r w1)
  from delete_map_trace[OF Pair] obtain dvs where
    t: "trace w1 = trace w @ dvs"
    and c: "case r of
        Inr us \<Rightarrow> dvs = map (\<lambda>l. EvDeleteSMS 0 l (Inr ())) (Locations sms)
      | Inl e \<Rightarrow> (\<exists>pre l post. Locations sms = pre @ l # post \<and>
          dvs = map (\<lambda>l. EvDeleteSMS 0 l (Inr ())) pre @ [EvDeleteSMS 0 l (Inl e)])"
    by (elim exE conjE) (rule that)
  show ?thesis
  proof (cases r)
    case (Inl e)
    with Pair assms(1) have "res = Inr ()" "w' = py_print (LineExc ''Error deleting SMS: '' e) w1"
      by (simp_all add: deleteSms_def)
    moreover from c Inl obtain pre l post where
      "Locations sms = pre @ l # post"
      "dvs = map (\<lambda>l. EvDeleteSMS 0 l (Inr ())) pre @ [EvDeleteSMS 0 l (Inl e)]"
      by auto
    ultimately show ?thesis
      using t assms(2) by (auto simp: py_print_def)
  next
    case (Inr us)
    with Pair assms(1) have "res = Inr ()" "w' = w1"
      by (simp_all add: deleteSms_def)
    with c Inr t assms(2) show ?thesis
      by auto
  qed
qed

lemma deletions_ok: "deletions (map (\<lambda>l. EvDeleteSMS 0 l (Inr ())) ls) = map (Pair 0) ls"
  by (induction ls) simp_all

lemma deletions_append: "deletions (xs @ ys) = deletions xs @ deletions ys"
  by (induction xs rule: deletions.induct) simp_all

lemma deleteSms_deletions:
  assumes "deleteSms E sms w = (res, w')" and "trace w' = trace w @ evs"
  shows "(\<exists>n\<le>length (Locations sms). deletions evs = map (Pair 0) (take n (Locations sms))) \<and>
         ((\<forall>ev\<in>set evs. failure ev = None) \<longrightarrow> deletions evs = map (Pair 0) (Locations sms))"
proof -
  from deleteSms_events[OF assms] consider
    (ok) "evs = map (\<lambda>l. EvDeleteSMS 0 l (Inr ())) (Locations sms)"
  | (fail) pre l post e where "Locations sms = pre @ l # post"
      "evs = map (\<lambda>l. EvDeleteSMS 0 l (Inr ())) pre @
          [EvDeleteSMS 0 l (Inl e), Print (LineExc ''Error deleting SMS: '' e)]"
    by blast
  then show ?thesis
  proof cases
    case ok
    then have "deletions evs = map (Pair 0) (take (length (Locations sms)) (Locations sms))"
      by (simp add: deletions_ok)
    with ok show ?thesis
      by (auto simp: deletions_ok)
  next
    case fail
    then have "deletions evs = map (Pair 0) (take (Suc (length pre)) (Locations sms))"
      by (simp add: deletions_append deletions_ok)
    moreover have "Suc (length pre) \<le> length (Locations sms)"
      using fail by simp
    moreover have "\<not> (\<forall>ev\<in>set evs. failure ev = None)"
      using fail by (simp add: failed_def)
    ultimately show ?thesis
      by blast
  qed
qed

text \<open>
  Claim C1. The first event of a call of \<^verbatim>\<open>retrieveAllSms\<close> is the status query, and
  the expected total is the sum of \<^verbatim>\<open>SIMUsed\<close>, \<^verbatim>\<open>PhoneUsed\<close> and
  \<^verbatim>\<open>TemplatesUsed\<close> of its answer. A call never makes more fetches than the expected
  total, and a call that returns has made exactly that many (none when the total is not
  positive), all of them successful, and has handed their answers to \<^verbatim>\<open>LinkSMS\<close>: the
  loop stops exactly when the number of answers reaches the expected total. The driver
  answers a fetch with one fragment and the linker keeps the fragments that it is given;
  then the number of fragments fetched, and the number of fragments across the returned
  messages, whose location lists are those of the linked groups, is the expected total.
\<close>

theorem retrieveAllSms_expected_total:
  assumes "retrieveAllSms E w = (res, w')" and "trace w' = trace w @ evs"
  shows "\<exists>s rest. evs = EvGetSMSStatus s # rest \<and>
     (\<forall>status. s = Inr status \<longrightarrow>
        int (length (filter is_fetch rest))
          \<le> max 0 (SIMUsed status + PhoneUsed status + TemplatesUsed status)) \<and>
     (\<forall>results. res = Inr results \<longrightarrow>
        (\<exists>status allSms. s = Inr status \<and>
           int (length (filter is_fetch rest))
             = max 0 (SIMUsed status + PhoneUsed status + TemplatesUsed status) \<and>
           length (responses rest) = length (filter is_fetch rest) \<and>
           EvLinkSMS (responses rest) (Inr allSms) \<in> set rest \<and>
           map Locations results = map (map Location) allSms \<and>
           ((\<forall>c\<in>set (responses rest). length c = 1) \<longrightarrow>
              int (length (concat (responses rest)))
                = max 0 (SIMUsed status + PhoneUsed status + TemplatesUsed status)) \<and>
           ((\<forall>c\<in>set (responses rest). length c = 1) \<and>
            length (concat allSms) = length (concat (responses rest)) \<longrightarrow>
              int (length (concat (map Locations results)))
                = max 0 (SIMUsed status + PhoneUsed status + TemplatesUsed status))))"
proof -
  from retrieveAllSms_trace[OF assms] obtain s rest0 tail where
    evs: "evs = EvGetSMSStatus s # rest0 @ tail"
    and bound: "\<forall>status. s = Inr status \<longrightarrow>
           int (length (filter is_fetch rest0))
             \<le> max 0 (SIMUsed status + PhoneUsed status + TemplatesUsed status)"
    and tail: "case res of
          Inl x \<Rightarrow> (\<exists>e. x = Exception e \<and> tail = [Print (LineExc ''Error retrieving SMS: '' e)])
        | Inr _ \<Rightarrow> tail = []"
    by (elim exE conjE) (rule that)
  let ?rest = "rest0 @ tail"
  from tail have nf: "\<forall>ev\<in>set tail. \<not> is_fetch ev"
    by (auto split: sum.splits)
  have a: "\<forall>status. s = Inr status \<longrightarrow>
        int (length (filter is_fetch ?rest))
          \<le> max 0 (SIMUsed status + PhoneUsed status + TemplatesUsed status)"
    using bound nf by (simp add: filter_fetch_none)
  have b: "\<forall>results. res = Inr results \<longrightarrow>
        (\<exists>status allSms. s = Inr status \<and>
           int (length (filter is_fetch ?rest))
             = max 0 (SIMUsed status + PhoneUsed status + TemplatesUsed status) \<and>
           length (responses ?rest) = length (filter is_fetch ?rest) \<and>
           EvLinkSMS (responses ?rest) (Inr allSms) \<in> set ?rest \<and>
           map Locations results = map (map Location) allSms \<and>
           ((\<forall>c\<in>set (responses ?rest). length c = 1) \<longrightarrow>
              int (length (concat (responses ?rest)))
                = max 0 (SIMUsed status + PhoneUsed status + TemplatesUsed status)) \<and>
           ((\<forall>c\<in>set (responses ?rest). length c = 1) \<and>
            length (concat allSms) = length (concat (responses ?rest)) \<longrightarrow>
              int (length (concat (map Locations results)))
                = max 0 (SIMUsed status + PhoneUsed status + TemplatesUsed status)))"
  proof (intro allI impI)
    fix results assume r: "res = Inr results"
    from retrieveAllSms_Inr_trace[OF assms(1)[unfolded r] assms(2)] obtain status fevs allSms devs where
      shape: "evs = EvGetSMSStatus (Inr status) # fevs @ EvLinkSMS (responses fevs) (Inr allSms) # devs"
      and fe: "\<forall>ev\<in>set fevs. is_fetch ev"
      and len: "length (responses fevs) = length fevs"
      and cnt: "int (length fevs) = max 0 (SIMUsed status + PhoneUsed status + TemplatesUsed status)"
      and de: "\<forall>ev\<in>set devs. \<not> is_fetch ev"
      and bu: "list_all2 (built E) allSms results"
      by (elim exE conjE) (rule that)
    from shape evs have s: "s = Inr status"
      and rest: "?rest = fevs @ EvLinkSMS (responses fevs) (Inr allSms) # devs"
      by simp_all
    have fl: "filter is_fetch ?rest = fevs"
      using fe de by (simp add: rest filter_fetch_all filter_fetch_none)
    have rs: "responses ?rest = responses fevs"
      using de by (simp add: rest responses_append responses_no_fetch)
    have mem: "EvLinkSMS (responses ?rest) (Inr allSms) \<in> set ?rest"
      unfolding rs by (simp add: rest)
    have loc: "map Locations results = map (map Location) allSms"
      using bu by (rule built_Locations)
    have tot: "int (length (concat (map Locations results)))
                = max 0 (SIMUsed status + PhoneUsed status + TemplatesUsed status)"
      if "\<forall>c\<in>set (responses ?rest). length c = 1"
        and "length (concat allSms) = length (concat (responses ?rest))"
    proof -
      have "length (concat (map Locations results)) = length (concat allSms)"
        by (simp add: loc length_concat_map_map)
      also have "\<dots> = length (responses fevs)"
        using that by (simp add: rs length_concat_singletons)
      finally show ?thesis
        using len cnt by simp
    qed
    have fr: "(\<forall>c\<in>set (responses ?rest). length c = 1) \<longrightarrow>
              int (length (concat (responses ?rest)))
                = max 0 (SIMUsed status + PhoneUsed status + TemplatesUsed status)"
      using len cnt by (simp add: rs length_concat_singletons)
    from s fl rs len cnt mem loc fr tot
    show "\<exists>status allSms. s = Inr status \<and>
           int (length (filter is_fetch ?rest))
             = max 0 (SIMUsed status + PhoneUsed status + TemplatesUsed status) \<and>
           length (responses ?rest) = length (filter is_fetch ?rest) \<and>
           EvLinkSMS (responses ?rest) (Inr allSms) \<in> set ?rest \<and>
           map Locations results = map (map Location) allSms \<and>
           ((\<forall>c\<in>set (responses ?rest). length c = 1) \<longrightarrow>
              int (length (concat (responses ?rest)))
                = max 0 (SIMUsed status + PhoneUsed status + TemplatesUsed status)) \<and>
           ((\<forall>c\<in>set (responses ?rest). length c = 1) \<and>
            length (concat allSms) = length (concat (responses ?rest)) \<longrightarrow>
              int (length (concat (map Locations results)))
                = max 0 (SIMUsed status + PhoneUsed status + TemplatesUsed status))"
      by (intro exI[of _ status] exI[of _ allSms]) simp
  qed
  from evs a b show ?thesis
    by (intro exI[of _ s] exI[of _ ?rest]) simp
qed

theorem retrieveAllSms_expected_total_witness:
  "fst (retrieveAllSms example_env world0) =
     Inr [\<lparr>Date = ''2024-05-01 10:00:00'', Number = ''+421900000001'', State = ''Read'',
           Locations = [1, 2], Text = ''Hello ''\<rparr>,
          \<lparr>Date = ''2024-05-01 10:00:07'', Number = ''+421900000002'', State = ''UnRead'',
           Locations = [3], Text = ''Bye''\<rparr>] \<and>
   hd (trace (snd (retrieveAllSms example_env world0))) =
     EvGetSMSStatus (Inr \<lparr>SIMUsed = 2, PhoneUsed = 1, TemplatesUsed = 0\<rparr>) \<and>
   length (filter is_fetch (trace (snd (retrieveAllSms example_env world0)))) = 3 \<and>
   length (concat (map Locations
     [\<lparr>Date = ''2024-05-01 10:00:00'', Number = ''+421900000001'', State = ''Read'',
           Locations = [1, 2], Text = ''Hello ''\<rparr>,
      \<lparr>Date = ''2024-05-01 10:00:07'', Number = ''+421900000002'', State = ''UnRead'',
           Locations = [3], Text = ''Bye''\<rparr>])) = 3"
proof -
  let ?r = "retrieveAllSms example_env world0"
  let ?m1 = "\<lparr>Date = ''2024-05-01 10:00:00'', Number = ''+421900000001'', State = ''Read'',
           Locations = [1, 2], Text = ''Hello ''\<rparr>"
  let ?m2 = "\<lparr>Date = ''2024-05-01 10:00:07'', Number = ''+421900000002'', State = ''UnRead'',
           Locations = [3], Text = ''Bye''\<rparr>"
  let ?st = "\<lparr>SIMUsed = 2, PhoneUsed = 1, TemplatesUsed = 0\<rparr>"
  let ?rest = "[EvGetNextSMS FetchStart 0 (Inr [example_fragment 1]),
     EvGetNextSMS (FetchAfter 1) 0 (Inr [example_fragment 2]),
     EvGetNextSMS (FetchAfter 2) 0 (Inr [example_fragment 3]),
     EvLinkSMS [[example_fragment 1], [example_fragment 2], [example_fragment 3]]
       (Inr [[example_fragment 1, example_fragment 2], [example_fragment 3]]),
     EvDecodeSMS [example_fragment 1, example_fragment 2] (Inr None),
     EvDecodeSMS [example_fragment 3] (Inr None)] :: string event list"
  have res: "fst ?r = Inr [?m1, ?m2]"
    by code_simp
  then have run: "?r = (Inr [?m1, ?m2], snd ?r)"
    by (metis prod.collapse)
  have t: "trace (snd ?r) = trace world0 @ trace (snd ?r)"
    by (simp add: world0_def)
  have tr: "trace (snd ?r) = EvGetSMSStatus (Inr ?st) # ?rest"
    by code_simp
  from retrieveAllSms_expected_total[OF run t] obtain s rest where
    evs: "trace (snd ?r) = EvGetSMSStatus s # rest"
    and ok: "\<forall>results. (Inr [?m1, ?m2] :: raised + sms_message list) = Inr results \<longrightarrow>
        (\<exists>status allSms. s = Inr status \<and>
           int (length (filter is_fetch rest))
             = max 0 (SIMUsed status + PhoneUsed status + TemplatesUsed status) \<and>
           length (responses rest) = length (filter is_fetch rest) \<and>
           EvLinkSMS (responses rest) (Inr allSms) \<in> set rest \<and>
           map Locations results = map (map Location) allSms \<and>
           ((\<forall>c\<in>set (responses rest). length c = 1) \<longrightarrow>
              int (length (concat (responses rest)))
                = max 0 (SIMUsed status + PhoneUsed status + TemplatesUsed status)) \<and>
           ((\<forall>c\<in>set (responses rest). length c = 1) \<and>
            length (concat allSms) = length (concat (responses rest)) \<longrightarrow>
              int (length (concat (map Locations results)))
                = max 0 (SIMUsed status + PhoneUsed status + TemplatesUsed status)))"
    by (elim exE conjE) (rule that)
  from evs tr have s: "s = Inr ?st" and rest: "rest = ?rest"
    by simp_all
  from ok obtain status allSms where
    st: "s = Inr status"
    and cnt: "int (length (filter is_fetch rest))
             = max 0 (SIMUsed status + PhoneUsed status + TemplatesUsed status)"
    and l: "EvLinkSMS (responses rest) (Inr allSms) \<in> set rest"
    and tot: "(\<forall>c\<in>set (responses rest). length c = 1) \<and>
            length (concat allSms) = length (concat (responses rest)) \<longrightarrow>
              int (length (concat (map Locations [?m1, ?m2])))
                = max 0 (SIMUsed status + PhoneUsed status + TemplatesUsed status)"
    by blast
  from st s have status: "status = ?st"
    by simp
  from l have allSms: "allSms = [[example_fragment 1, example_fragment 2], [example_fragment 3]]"
    unfolding rest by simp
  have "\<forall>c\<in>set (responses rest). length c = 1"
    unfolding rest by simp
  moreover have "length (concat allSms) = length (concat (responses rest))"
    unfolding rest allSms by simp
  ultimately have "int (length (concat (map Locations [?m1, ?m2]))) = 3"
    using tot status by simp
  moreover from cnt status have "length (filter is_fetch (trace (snd ?r))) = 3"
    unfolding evs by simp
  ultimately show ?thesis
    using res tr by simp
qed

text \<open>
  Claim C2, as the code has it. For every message that \<^verbatim>\<open>retrieveAllSms\<close> returns,
  \<^verbatim>\<open>Locations\<close> is the list of the locations of the fragments of its linked group, in
  the order of the group, and so has the length of the group. \<^verbatim>\<open>deleteSms\<close> on that
  message calls \<^verbatim>\<open>DeleteSMS\<close> in folder 0 for an initial part of that list, in order;
  when no call fails it calls it for the whole list, once per location.
\<close>

theorem retrieveAllSms_locations:
  assumes "retrieveAllSms E w = (Inr results, w')" and "trace w' = trace w @ evs"
  shows "\<exists>fetched allSms. EvLinkSMS fetched (Inr allSms) \<in> set evs \<and>
    list_all2 (\<lambda>sms r. Locations r = map Location sms \<and> length (Locations r) = length sms)
      allSms results \<and>
    (\<forall>r\<in>set results. \<forall>v res v' devs.
       deleteSms E r v = (res, v') \<longrightarrow> trace v' = trace v @ devs \<longrightarrow>
         (\<exists>n\<le>length (Locations r). deletions devs = map (Pair 0) (take n (Locations r))) \<and>
         ((\<forall>ev\<in>set devs. failure ev = None) \<longrightarrow> deletions devs = map (Pair 0) (Locations r)))"
proof -
  from retrieveAllSms_linked[OF assms] obtain fetched allSms where
    l: "EvLinkSMS fetched (Inr allSms) \<in> set evs" and b: "list_all2 (built E) allSms results"
    by blast
  from b have "list_all2 (\<lambda>sms r. Locations r = map Location sms \<and> length (Locations r) = length sms)
      allSms results"
    by (rule list_all2_mono) (simp add: built_def)
  with l deleteSms_deletions show ?thesis
    by blast
qed

text \<open>
  When a deletion fails, fewer calls are made than there are locations: the message with
  the locations 1 and 2 gets one \<^verbatim>\<open>DeleteSMS\<close> call on a modem that cannot delete
  location 1.
\<close>

theorem retrieveAllSms_locations_counterexample:
  "fst (retrieveAllSms example_env_stuck world0) =
     Inr [\<lparr>Date = ''2024-05-01 10:00:00'', Number = ''+421900000001'', State = ''Read'',
           Locations = [1, 2], Text = ''Hello ''\<rparr>,
          \<lparr>Date = ''2024-05-01 10:00:07'', Number = ''+421900000002'', State = ''UnRead'',
           Locations = [3], Text = ''Bye''\<rparr>] \<and>
   length (Locations
     \<lparr>Date = ''2024-05-01 10:00:00'', Number = ''+421900000001'', State = ''Read'',
           Locations = [1, 2], Text = ''Hello ''\<rparr>) = 2 \<and>
   deletions (trace (snd (deleteSms example_env_stuck
     \<lparr>Date = ''2024-05-01 10:00:00'', Number = ''+421900000001'', State = ''Read'',
           Locations = [1, 2], Text = ''Hello ''\<rparr> world0))) = [(0, 1)]"
  by code_simp

theorem retrieveAllSms_locations_witness:
  "fst (retrieveAllSms example_env world0) =
     Inr [\<lparr>Date = ''2024-05-01 10:00:00'', Number = ''+421900000001'', State = ''Read'',
           Locations = [1, 2], Text = ''Hello ''\<rparr>,
          \<lparr>Date = ''2024-05-01 10:00:07'', Number = ''+421900000002'', State = ''UnRead'',
           Locations = [3], Text = ''Bye''\<rparr>] \<and>
   deletions (trace (snd (deleteSms example_env
     \<lparr>Date = ''2024-05-01 10:00:00'', Number = ''+421900000001'', State = ''Read'',
           Locations = [1, 2], Text = ''Hello ''\<rparr> world0))) = [(0, 1), (0, 2)]"
proof -
  let ?r = "retrieveAllSms example_env world0"
  let ?m1 = "\<lparr>Date = ''2024-05-01 10:00:00'', Number = ''+421900000001'', State = ''Read'',
           Locations = [1, 2], Text = ''Hello ''\<rparr>"
  let ?m2 = "\<lparr>Date = ''2024-05-01 10:00:07'', Number = ''+421900000002'', State = ''UnRead'',
           Locations = [3], Text = ''Bye''\<rparr>"
  let ?d = "deleteSms example_env ?m1 world0"
  have res: "fst ?r = Inr [?m1, ?m2]"
    by code_simp
  then have run: "?r = (Inr [?m1, ?m2], snd ?r)"
    by (metis prod.collapse)
  have t: "trace (snd ?r) = trace world0 @ trace (snd ?r)"
    by (simp add: world0_def)
  have drun: "?d = (fst ?d, snd ?d)"
    by simp
  have dt: "trace (snd ?d) = trace world0 @ trace (snd ?d)"
    by (simp add: world0_def)
  have nofail: "\<forall>ev\<in>set (trace (snd ?d)). failure ev = None"
    by code_simp
  from retrieveAllSms_locations[OF run t] have
    "\<forall>r\<in>set [?m1, ?m2]. \<forall>v res v' devs.
       deleteSms example_env r v = (res, v') \<longrightarrow> trace v' = trace v @ devs \<longrightarrow>
         (\<exists>n\<le>length (Locations r). deletions devs = map (Pair 0) (take n (Locations r))) \<and>
         ((\<forall>ev\<in>set devs. failure ev = None) \<longrightarrow> deletions devs = map (Pair 0) (Locations r))"
    by blast
  then have "\<forall>v res v' devs.
       deleteSms example_env ?m1 v = (res, v') \<longrightarrow> trace v' = trace v @ devs \<longrightarrow>
         ((\<forall>ev\<in>set devs. failure ev = None) \<longrightarrow> deletions devs = map (Pair 0) (Locations ?m1))"
    by simp
  with drun dt nofail have "deletions (trace (snd ?d)) = map (Pair 0) (Locations ?m1)"
    by blast
  with res show ?thesis
    by simp
qed

text \<open>
  Claim C3, as the code has it. \<^verbatim>\<open>deleteSms\<close> always returns normally. It calls
  \<^verbatim>\<open>DeleteSMS\<close> in folder 0 for the locations in the order of the list, and the first
  call that fails ends the deletion: either every location has been deleted, or the calls
  end with the first failing location, followed by one printed line with the error, and
  the locations after it are not attempted.
\<close>

theorem deleteSms_stops_at_first_failure:
  assumes "deleteSms E sms w = (res, w')" and "trace w' = trace w @ evs"
  shows "res = Inr () \<and>
    (evs = map (\<lambda>l. EvDeleteSMS 0 l (Inr ())) (Locations sms) \<or>
     (\<exists>pre l post e. Locations sms = pre @ l # post \<and>
        evs = map (\<lambda>l. EvDeleteSMS 0 l (Inr ())) pre @
          [EvDeleteSMS 0 l (Inl e), Print (LineExc ''Error deleting SMS: '' e)]))"
  using assms by (rule deleteSms_events)

text \<open>
  Location 2 is never attempted after the deletion of location 1 has failed, although
  the driver would delete it.
\<close>

theorem deleteSms_stops_at_first_failure_counterexample:
  "deleteSms example_env_stuck
     \<lparr>Date = ''2024-05-01 10:00:00'', Number = ''+421900000001'', State = ''Read'',
           Locations = [1, 2], Text = ''Hello ''\<rparr> world0 =
     (Inr (),
      \<lparr>dev = (),
       trace = [EvDeleteSMS 0 1 (Inl (ERR_OTHER ''ERR_INVALIDLOCATION'')),
                Print (LineExc ''Error deleting SMS: '' (ERR_OTHER ''ERR_INVALIDLOCATION''))]\<rparr>) \<and>
   fst (DeleteSMS example_env_stuck 0 2 (dev world0)) = Inr ()"
  by code_simp

theorem deleteSms_stops_at_first_failure_witness:
  "fst (deleteSms example_env_stuck
     \<lparr>Date = ''2024-05-01 10:00:00'', Number = ''+421900000001'', State = ''Read'',
           Locations = [1, 2], Text = ''Hello ''\<rparr> world0) = Inr () \<and>
   trace (snd (deleteSms example_env_stuck
     \<lparr>Date = ''2024-05-01 10:00:00'', Number = ''+421900000001'', State = ''Read'',
           Locations = [1, 2], Text = ''Hello ''\<rparr> world0)) =
     [EvDeleteSMS 0 1 (Inl (ERR_OTHER ''ERR_INVALIDLOCATION'')),
      Print (LineExc ''Error deleting SMS: '' (ERR_OTHER ''ERR_INVALIDLOCATION''))]"
proof -
  let ?m1 = "\<lparr>Date = ''2024-05-01 10:00:00'', Number = ''+421900000001'', State = ''Read'',
           Locations = [1, 2], Text = ''Hello ''\<rparr>"
  let ?d = "deleteSms example_env_stuck ?m1 world0"
  have run: "?d = (fst ?d, snd ?d)"
    by simp
  have t: "trace (snd ?d) = trace world0 @ trace (snd ?d)"
    by (simp add: world0_def)
  have tr: "trace (snd ?d) =
     [EvDeleteSMS 0 1 (Inl (ERR_OTHER ''ERR_INVALIDLOCATION'')),
      Print (LineExc ''Error deleting SMS: '' (ERR_OTHER ''ERR_INVALIDLOCATION''))]"
    by code_simp
  from deleteSms_stops_at_first_failure[OF run t] have "fst ?d = Inr ()"
    by simp
  with tr show ?thesis
    by simp
qed

text \<open>
  Claim C4. For every message that \<^verbatim>\<open>retrieveAllSms\<close> returns, with its linked group:
  when \<^verbatim>\<open>DecodeSMS\<close> of the group yields nothing (\<^verbatim>\<open>None\<close>), \<^verbatim>\<open>Text\<close> is the raw
  text of the first fragment of the group; otherwise it is the concatenation, in order,
  of the buffers of the decoded entries that are not null (the empty text when there is
  no such entry).
\<close>

theorem retrieveAllSms_text:
  assumes "retrieveAllSms E w = (Inr results, w')" and "trace w' = trace w @ evs"
  shows "\<exists>fetched allSms. EvLinkSMS fetched (Inr allSms) \<in> set evs \<and>
    list_all2 (\<lambda>sms r. sms \<noteq> [] \<and>
        (DecodeSMS E sms = Inr None \<longrightarrow> sms_message.Text r = fragment.Text (hd sms)) \<and>
        (\<forall>decodedSms. DecodeSMS E sms = Inr (Some decodedSms) \<longrightarrow>
           sms_message.Text r = buffers_text (Entries decodedSms)) \<and>
        (\<forall>e. DecodeSMS E sms \<noteq> Inl e)) allSms results"
proof -
  from retrieveAllSms_linked[OF assms] obtain fetched allSms where
    l: "EvLinkSMS fetched (Inr allSms) \<in> set evs" and b: "list_all2 (built E) allSms results"
    by blast
  from b have "list_all2 (\<lambda>sms r. sms \<noteq> [] \<and>
        (DecodeSMS E sms = Inr None \<longrightarrow> sms_message.Text r = fragment.Text (hd sms)) \<and>
        (\<forall>decodedSms. DecodeSMS E sms = Inr (Some decodedSms) \<longrightarrow>
           sms_message.Text r = buffers_text (Entries decodedSms)) \<and>
        (\<forall>e. DecodeSMS E sms \<noteq> Inl e)) allSms results"
    by (rule list_all2_mono) (auto simp: built_def split: sum.splits option.splits)
  with l show ?thesis
    by blast
qed

theorem retrieveAllSms_text_witness:
  "fst (retrieveAllSms example_env_decoding world0) =
     Inr [\<lparr>Date = ''2024-05-01 10:00:00'', Number = ''+421900000001'', State = ''Read'',
           Locations = [1, 2], Text = ''Hello world''\<rparr>,
          \<lparr>Date = ''2024-05-01 10:00:07'', Number = ''+421900000002'', State = ''UnRead'',
           Locations = [3], Text = ''Bye''\<rparr>] \<and>
   DecodeSMS example_env_decoding [example_fragment 3] = Inr None \<and>
   fragment.Text (example_fragment 3) = ''Bye'' \<and>
   DecodeSMS example_env_decoding [example_fragment 1, example_fragment 2] =
     Inr (Some \<lparr>Entries = [\<lparr>Buffer = Some ''Hello ''\<rparr>, \<lparr>Buffer = None\<rparr>,
                              \<lparr>Buffer = Some ''world''\<rparr>]\<rparr>) \<and>
   buffers_text [\<lparr>Buffer = Some ''Hello ''\<rparr>, \<lparr>Buffer = None\<rparr>, \<lparr>Buffer = Some ''world''\<rparr>] =
     ''Hello world''"
proof -
  let ?r = "retrieveAllSms example_env_decoding world0"
  let ?m1 = "\<lparr>Date = ''2024-05-01 10:00:00'', Number = ''+421900000001'', State = ''Read'',
           Locations = [1, 2], Text = ''Hello world''\<rparr>"
  let ?m2 = "\<lparr>Date = ''2024-05-01 10:00:07'', Number = ''+421900000002'', State = ''UnRead'',
           Locations = [3], Text = ''Bye''\<rparr>"
  let ?d = "\<lparr>Entries = [\<lparr>Buffer = Some ''Hello ''\<rparr>, \<lparr>Buffer = None\<rparr>,
                              \<lparr>Buffer = Some ''world''\<rparr>]\<rparr>"
  have res: "fst ?r = Inr [?m1, ?m2]"
    by code_simp
  then have run: "?r = (Inr [?m1, ?m2], snd ?r)"
    by (metis prod.collapse)
  have t: "trace (snd ?r) = trace world0 @ trace (snd ?r)"
    by (simp add: world0_def)
  have tr: "trace (snd ?r) =
    [EvGetSMSStatus (Inr \<lparr>SIMUsed = 2, PhoneUsed = 1, TemplatesUsed = 0\<rparr>),
     EvGetNextSMS FetchStart 0 (Inr [example_fragment 1]),
     EvGetNextSMS (FetchAfter 1) 0 (Inr [example_fragment 2]),
     EvGetNextSMS (FetchAfter 2) 0 (Inr [example_fragment 3]),
     EvLinkSMS [[example_fragment 1], [example_fragment 2], [example_fragment 3]]
       (Inr [[example_fragment 1, example_fragment 2], [example_fragment 3]]),
     EvDecodeSMS [example_fragment 1, example_fragment 2] (Inr (Some ?d)),
     EvDecodeSMS [example_fragment 3] (Inr None)]"
    by code_simp
  have d1: "DecodeSMS example_env_decoding [example_fragment 1, example_fragment 2] = Inr (Some ?d)"
    by code_simp
  have d2: "DecodeSMS example_env_decoding [example_fragment 3] = Inr None"
    by code_simp
  from retrieveAllSms_text[OF run t] obtain fetched allSms where
    l: "EvLinkSMS fetched (Inr allSms) \<in> set (trace (snd ?r))"
    and f: "list_all2 (\<lambda>sms r. sms \<noteq> [] \<and>
        (DecodeSMS example_env_decoding sms = Inr None \<longrightarrow>
           sms_message.Text r = fragment.Text (hd sms)) \<and>
        (\<forall>decodedSms. DecodeSMS example_env_decoding sms = Inr (Some decodedSms) \<longrightarrow>
           sms_message.Text r = buffers_text (Entries decodedSms)) \<and>
        (\<forall>e. DecodeSMS example_env_decoding sms \<noteq> Inl e)) allSms [?m1, ?m2]"
    by blast
  from l have "allSms = [[example_fragment 1, example_fragment 2], [example_fragment 3]]"
    unfolding tr by simp
  with f d1 d2 have "''Bye'' = fragment.Text (example_fragment 3)"
    and "''Hello world'' = buffers_text (Entries ?d)"
    by simp_all
  with res d1 d2 show ?thesis
    by simp
qed

text \<open>
  Claim C5. In every call of \<^verbatim>\<open>retrieveAllSms\<close>, whether it returns or raises, the first
  \<^verbatim>\<open>GetNextSMS\<close> call asks from the start, and every later one asks for what comes after
  the location of the first fragment of the answer to the call before it; all calls are
  in folder 0, and no call follows a failed or an empty answer.
\<close>

theorem retrieveAllSms_fetch_chain:
  assumes "retrieveAllSms E w = (res, w')" and "trace w' = trace w @ evs"
  shows "chained (Some FetchStart) evs"
proof -
  from retrieveAllSms_trace[OF assms] obtain s rest tail where
    evs: "evs = EvGetSMSStatus s # rest @ tail"
    and ch: "chained (Some FetchStart) rest"
    and tail: "case res of
          Inl x \<Rightarrow> (\<exists>e. x = Exception e \<and> tail = [Print (LineExc ''Error retrieving SMS: '' e)])
        | Inr _ \<Rightarrow> tail = []"
    by (elim exE conjE) (rule that)
  from tail have "\<forall>ev\<in>set tail. \<not> is_fetch ev"
    by (auto split: sum.splits)
  from chained_append[OF ch this] evs show ?thesis
    by simp
qed

theorem retrieveAllSms_fetch_chain_witness:
  "filter is_fetch (trace (snd (retrieveAllSms example_env world0))) =
     [EvGetNextSMS FetchStart 0 (Inr [example_fragment 1]),
      EvGetNextSMS (FetchAfter 1) 0 (Inr [example_fragment 2]),
      EvGetNextSMS (FetchAfter 2) 0 (Inr [example_fragment 3])] \<and>
   chained (Some FetchStart) (trace (snd (retrieveAllSms example_env world0)))"
proof -
  let ?r = "retrieveAllSms example_env world0"
  have run: "?r = (fst ?r, snd ?r)"
    by simp
  have t: "trace (snd ?r) = trace world0 @ trace (snd ?r)"
    by (simp add: world0_def)
  have "filter is_fetch (trace (snd ?r)) =
     [EvGetNextSMS FetchStart 0 (Inr [example_fragment 1]),
      EvGetNextSMS (FetchAfter 1) 0 (Inr [example_fragment 2]),
      EvGetNextSMS (FetchAfter 2) 0 (Inr [example_fragment 3])]"
    by code_simp
  with retrieveAllSms_fetch_chain[OF run t] show ?thesis
    by simp
qed

text \<open>
  Claim C8. In every call of \<^verbatim>\<open>retrieveAllSms\<close>, if any call that it makes (the status
  query, a fetch, the linking, a decoding) fails with an exception, the function raises
  that exception, after printing it as its last action, and returns no list. Whatever
  the function raises is an exception that it has printed last. A list is returned only
  when no call has failed, and then it has one message for every linked group.
\<close>

theorem retrieveAllSms_aborts:
  assumes "retrieveAllSms E w = (res, w')" and "trace w' = trace w @ evs"
  shows "(\<forall>ev\<in>set evs. \<forall>e. failure ev = Some e \<longrightarrow>
            res = Inl (Exception e) \<and> last evs = Print (LineExc ''Error retrieving SMS: '' e)) \<and>
         (\<forall>x. res = Inl x \<longrightarrow>
            (\<exists>e. x = Exception e \<and> last evs = Print (LineExc ''Error retrieving SMS: '' e))) \<and>
         (\<forall>results. res = Inr results \<longrightarrow>
            (\<forall>ev\<in>set evs. failure ev = None) \<and>
            (\<exists>fetched allSms. EvLinkSMS fetched (Inr allSms) \<in> set evs \<and>
               length results = length allSms))"
proof -
  from retrieveAllSms_trace[OF assms] obtain s rest tail where
    evs: "evs = EvGetSMSStatus s # rest @ tail"
    and f: "\<forall>ev\<in>set (EvGetSMSStatus s # rest). \<forall>e. failure ev = Some e \<longrightarrow> res = Inl (Exception e)"
    and tail: "case res of
          Inl x \<Rightarrow> (\<exists>e. x = Exception e \<and> tail = [Print (LineExc ''Error retrieving SMS: '' e)])
        | Inr _ \<Rightarrow> tail = []"
    by (elim exE conjE) (rule that)
  have a: "\<forall>ev\<in>set evs. \<forall>e. failure ev = Some e \<longrightarrow>
            res = Inl (Exception e) \<and> last evs = Print (LineExc ''Error retrieving SMS: '' e)"
  proof (intro ballI allI impI)
    fix ev e assume ev: "ev \<in> set evs" and fe: "failure ev = Some e"
    from tail have "\<forall>x\<in>set tail. failure x = None"
      by (auto split: sum.splits)
    with ev fe evs have "ev \<in> set (EvGetSMSStatus s # rest)"
      by auto
    with f fe have r: "res = Inl (Exception e)"
      by blast
    with tail have "tail = [Print (LineExc ''Error retrieving SMS: '' e)]"
      by simp
    with evs r show "res = Inl (Exception e) \<and> last evs = Print (LineExc ''Error retrieving SMS: '' e)"
      by simp
  qed
  have b: "\<forall>results. res = Inr results \<longrightarrow>
            (\<forall>ev\<in>set evs. failure ev = None) \<and>
            (\<exists>fetched allSms. EvLinkSMS fetched (Inr allSms) \<in> set evs \<and>
               length results = length allSms)"
  proof (intro allI impI)
    fix results assume r: "res = Inr results"
    from a r have n: "\<forall>ev\<in>set evs. failure ev = None"
      by (metis not_Some_eq sum.distinct(1))
    from retrieveAllSms_linked[OF assms(1)[unfolded r] assms(2)] obtain fetched allSms where
      l: "EvLinkSMS fetched (Inr allSms) \<in> set evs" and "list_all2 (built E) allSms results"
      by blast
    then have "length results = length allSms"
      by (simp add: list_all2_lengthD)
    with n l show "(\<forall>ev\<in>set evs. failure ev = None) \<and>
            (\<exists>fetched allSms. EvLinkSMS fetched (Inr allSms) \<in> set evs \<and>
               length results = length allSms)"
      by blast
  qed
  have c: "\<forall>x. res = Inl x \<longrightarrow>
            (\<exists>e. x = Exception e \<and> last evs = Print (LineExc ''Error retrieving SMS: '' e))"
    using tail evs by auto
  from a c b show ?thesis
    by (intro conjI)
qed

theorem retrieveAllSms_aborts_witness:
  "EvGetNextSMS (FetchAfter 3) 0 (Inl (ERR_OTHER ''ERR_EMPTY'')) \<in>
     set (trace (snd (retrieveAllSms example_env_short world0))) \<and>
   failure (EvGetNextSMS (FetchAfter 3) 0 (Inl (ERR_OTHER ''ERR_EMPTY'')) :: string event) =
     Some (ERR_OTHER ''ERR_EMPTY'') \<and>
   fst (retrieveAllSms example_env_short world0) = Inl (Exception (ERR_OTHER ''ERR_EMPTY'')) \<and>
   last (trace (snd (retrieveAllSms example_env_short world0))) =
     Print (LineExc ''Error retrieving SMS: '' (ERR_OTHER ''ERR_EMPTY''))"
proof -
  let ?r = "retrieveAllSms example_env_short world0"
  let ?ev = "EvGetNextSMS (FetchAfter 3) 0 (Inl (ERR_OTHER ''ERR_EMPTY'')) :: string event"
  have run: "?r = (fst ?r, snd ?r)"
    by simp
  have t: "trace (snd ?r) = trace world0 @ trace (snd ?r)"
    by (simp add: world0_def)
  have m: "?ev \<in> set (trace (snd ?r))"
    by code_simp
  have f: "failure ?ev = Some (ERR_OTHER ''ERR_EMPTY'')"
    by (simp add: failed_def)
  from retrieveAllSms_aborts[OF run t] m f
  have "fst ?r = Inl (Exception (ERR_OTHER ''ERR_EMPTY'')) \<and>
        last (trace (snd ?r)) = Print (LineExc ''Error retrieving SMS: '' (ERR_OTHER ''ERR_EMPTY''))"
    by blast
  with m f show ?thesis
    by simp
qed

text \<open>
  Claim C10. For every message that \<^verbatim>\<open>retrieveAllSms\<close> returns, with its linked group:
  the group is not empty, \<^verbatim>\<open>Date\<close> is the string of the \<^verbatim>\<open>DateTime\<close> of the first
  fragment of the group, and \<^verbatim>\<open>Number\<close> and \<^verbatim>\<open>State\<close> are those of the first
  fragment, whatever the later fragments carry.
\<close>

theorem retrieveAllSms_first_fragment_fields:
  assumes "retrieveAllSms E w = (Inr results, w')" and "trace w' = trace w @ evs"
  shows "\<exists>fetched allSms. EvLinkSMS fetched (Inr allSms) \<in> set evs \<and>
    list_all2 (\<lambda>sms r. sms \<noteq> [] \<and>
        Date r = str_datetime E (DateTime (hd sms)) \<and>
        sms_message.Number r = fragment.Number (hd sms) \<and>
        sms_message.State r = fragment.State (hd sms)) allSms results"
proof -
  from retrieveAllSms_linked[OF assms] obtain fetched allSms where
    l: "EvLinkSMS fetched (Inr allSms) \<in> set evs" and b: "list_all2 (built E) allSms results"
    by blast
  from b have "list_all2 (\<lambda>sms r. sms \<noteq> [] \<and>
        Date r = str_datetime E (DateTime (hd sms)) \<and>
        sms_message.Number r = fragment.Number (hd sms) \<and>
        sms_message.State r = fragment.State (hd sms)) allSms results"
    by (rule list_all2_mono) (simp add: built_def)
  with l show ?thesis
    by blast
qed

theorem retrieveAllSms_first_fragment_fields_witness:
  "fst (retrieveAllSms example_env world0) =
     Inr [\<lparr>Date = ''2024-05-01 10:00:00'', Number = ''+421900000001'', State = ''Read'',
           Locations = [1, 2], Text = ''Hello ''\<rparr>,
          \<lparr>Date = ''2024-05-01 10:00:07'', Number = ''+421900000002'', State = ''UnRead'',
           Locations = [3], Text = ''Bye''\<rparr>] \<and>
   ''2024-05-01 10:00:00'' = str_datetime example_env (DateTime (example_fragment 1)) \<and>
   ''+421900000001'' = fragment.Number (example_fragment 1) \<and>
   ''Read'' = fragment.State (example_fragment 1) \<and>
   fragment.State (example_fragment 2) = ''UnRead''"
proof -
  let ?r = "retrieveAllSms example_env world0"
  let ?m1 = "\<lparr>Date = ''2024-05-01 10:00:00'', Number = ''+421900000001'', State = ''Read'',
           Locations = [1, 2], Text = ''Hello ''\<rparr>"
  let ?m2 = "\<lparr>Date = ''2024-05-01 10:00:07'', Number = ''+421900000002'', State = ''UnRead'',
           Locations = [3], Text = ''Bye''\<rparr>"
  have res: "fst ?r = Inr [?m1, ?m2]"
    by code_simp
  then have run: "?r = (Inr [?m1, ?m2], snd ?r)"
    by (metis prod.collapse)
  have t: "trace (snd ?r) = trace world0 @ trace (snd ?r)"
    by (simp add: world0_def)
  have tr: "trace (snd ?r) =
    [EvGetSMSStatus (Inr \<lparr>SIMUsed = 2, PhoneUsed = 1, TemplatesUsed = 0\<rparr>),
     EvGetNextSMS FetchStart 0 (Inr [example_fragment 1]),
     EvGetNextSMS (FetchAfter 1) 0 (Inr [example_fragment 2]),
     EvGetNextSMS (FetchAfter 2) 0 (Inr [example_fragment 3]),
     EvLinkSMS [[example_fragment 1], [example_fragment 2], [example_fragment 3]]
       (Inr [[example_fragment 1, example_fragment 2], [example_fragment 3]]),
     EvDecodeSMS [example_fragment 1, example_fragment 2] (Inr None),
     EvDecodeSMS [example_fragment 3] (Inr None)]"
    by code_simp
  from retrieveAllSms_first_fragment_fields[OF run t] obtain fetched allSms where
    l: "EvLinkSMS fetched (Inr allSms) \<in> set (trace (snd ?r))"
    and f: "list_all2 (\<lambda>sms r. sms \<noteq> [] \<and>
        Date r = str_datetime example_env (DateTime (hd sms)) \<and>
        sms_message.Number r = fragment.Number (hd sms) \<and>
        sms_message.State r = fragment.State (hd sms)) allSms [?m1, ?m2]"
    by blast
  from l have "allSms = [[example_fragment 1, example_fragment 2], [example_fragment 3]]"
    unfolding tr by simp
  with f have "''2024-05-01 10:00:00'' = str_datetime example_env (DateTime (example_fragment 1))"
    and "''+421900000001'' = fragment.Number (example_fragment 1)"
    and "''Read'' = fragment.State (example_fragment 1)"
    by simp_all
  moreover have "fragment.State (example_fragment 2) = ''UnRead''"
    by code_simp
  ultimately show ?thesis
    using res by simp
qed

section \<open>Initialisation: the function is refused\<close>

lemma init_state_machine_not_compiled:
  "compile_function init_state_machine_handlers = Some SyntaxError"
  by (simp add: compile_function_def init_state_machine_handlers_def)


text \<open>
  Claim C7 says that a call on a modem without a SIM raises nothing and returns the
  handle. The code does not: whatever its statements would do, no use of
  \<^verbatim>\<open>init_state_machine\<close> returns a handle.
\<close>

theorem init_state_machine_no_handle:
  "fst (init_state_machine body pin device_path w) \<noteq> Inr sm"
  by (simp add: init_state_machine_def init_state_machine_not_compiled)

text \<open>
  Claim C9 says that a call in which the initialisation of the driver fails for another
  reason raises the exception of the driver after listing the device nodes. The code
  does not: whatever its statements would do, every use of \<^verbatim>\<open>init_state_machine\<close>
  raises the compiler's \<^verbatim>\<open>SyntaxError\<close> and leaves the world as it was, with no call
  to the driver, no listing and no printed line.
\<close>

theorem init_state_machine_refused:
  "init_state_machine body pin device_path w = (Inl (Exception SyntaxError), w)"
  by (simp add: init_state_machine_def init_state_machine_not_compiled)

end
